theory Spec2Isabelle
  imports Main "HOL-Library.AList"
begin

section \<open>The chat server of week1/server.py\<close>

text \<open>
  The development embeds \<^verbatim>\<open>ChatServer\<close> of \<^verbatim>\<open>src/week1/server.py\<close>.

  \<^item> A Python \<^verbatim>\<open>str\<close> is a list of Unicode code points (\<open>nat list\<close>): the fixed
    messages of the server are Korean, and \<^verbatim>\<open>strip\<close>, \<^verbatim>\<open>split\<close>,
    \<^verbatim>\<open>startswith\<close> and \<^verbatim>\<open>==\<close> work on code points.
  \<^item> A socket object is identified by a natural number.
  \<^item> The two dictionaries are association lists in insertion order, written with
    \<open>AList.update\<close> (assignment \<^verbatim>\<open>d[k] = v\<close>), \<open>AList.delete\<close>
    (\<^verbatim>\<open>d.pop(k, None)\<close>) and read with \<open>map_of\<close> (\<^verbatim>\<open>d.get(k)\<close>,
    \<^verbatim>\<open>k in d\<close>); \<^verbatim>\<open>list(d.keys())\<close> is \<open>map fst\<close>.
  \<^item> The network is part of the state: the sockets the server has closed, the
    connections on which \<^verbatim>\<open>sendall\<close> raises \<^verbatim>\<open>OSError\<close>, and the lines that
    reached a peer, oldest first.
  \<^item> What a handler reads is a script of \<^verbatim>\<open>recv\<close> outcomes. The console
    \<^verbatim>\<open>print\<close> calls are left out.
\<close>

subsection \<open>Text\<close>

type_synonym ustr = "nat list"

type_synonym conn = nat

text \<open>The decimal digits of a number, as \<^verbatim>\<open>f'{i}'\<close> writes them.\<close>

fun str_nat :: "nat \<Rightarrow> ustr" where
  "str_nat n = (if n < 10 then [48 + n] else str_nat (n div 10) @ [48 + n mod 10])"

declare str_nat.simps [simp del]

text \<open>The characters \<^verbatim>\<open>str.strip()\<close> removes: those for which \<^verbatim>\<open>str.isspace\<close> holds.\<close>

definition is_space :: "nat \<Rightarrow> bool" where
  "is_space c =
     ((9 \<le> c \<and> c \<le> 13) \<or> (28 \<le> c \<and> c \<le> 32) \<or> c = 133 \<or> c = 160 \<or> c = 5760
      \<or> (8192 \<le> c \<and> c \<le> 8202) \<or> c = 8232 \<or> c = 8233 \<or> c = 8239 \<or> c = 8287
      \<or> c = 12288)"

definition strip :: "ustr \<Rightarrow> ustr" where
  "strip s = rev (dropWhile is_space (rev (dropWhile is_space s)))"

text \<open>\<^verbatim>\<open>s.split(' ', n)\<close>: at most \<open>n\<close> cuts, each at the next single space.\<close>

fun split_sp :: "nat \<Rightarrow> ustr \<Rightarrow> ustr list" where
  "split_sp 0 s = [s]"
| "split_sp (Suc n) s =
     (if 32 \<in> set s
      then takeWhile (\<lambda>c. c \<noteq> 32) s # split_sp n (tl (dropWhile (\<lambda>c. c \<noteq> 32) s))
      else [s])"

subsection \<open>The fixed messages\<close>

text \<open>Line 90, the prompt: "please enter a nickname:".\<close>

definition MSG_PROMPT :: ustr where
  "MSG_PROMPT = [45769, 45348, 51076, 51012, 32, 51077, 47141, 54644, 51452, 49464, 50836, 58]"

text \<open>Line 101, the default base name \<^verbatim>\<open>user\<close>.\<close>

definition DEFAULT_BASE :: ustr where
  "DEFAULT_BASE = [117, 115, 101, 114]"

text \<open>Line 104, the confirmation: "the nickname has been set to [nickname]".\<close>

definition confirm_line :: "ustr \<Rightarrow> ustr" where
  "confirm_line nickname =
     [45769, 45348, 51076, 51060, 32, 91] @ nickname
     @ [93, 47196, 32, 49444, 51221, 46104, 50632, 49845, 45768, 45796, 46]"

text \<open>Line 58, the join announcement: "[nickname] has entered".\<close>

definition join_line :: "ustr \<Rightarrow> ustr" where
  "join_line nickname =
     [91] @ nickname @ [93, 45784, 51060, 32, 51077, 51109, 54616, 49512, 49845, 45768, 45796, 46]"

text \<open>Line 131, the leave announcement: "[nickname] has left".\<close>

definition leave_line :: "ustr \<Rightarrow> ustr" where
  "leave_line nickname =
     [91] @ nickname @ [93, 45784, 51060, 32, 53748, 51109, 54616, 49512, 49845, 45768, 45796, 46]"

text \<open>Lines 60 and 61, the two help lines.\<close>

definition MSG_HELP1 :: ustr where
  "MSG_HELP1 =
     [50504, 45236, 58, 32, 51068, 48152, 32, 47700, 49884, 51648, 45716, 32, 47784, 46160,
      50640, 44172, 32, 51204, 49569, 46121, 45768, 45796, 46]"

definition MSG_HELP2 :: ustr where
  "MSG_HELP2 =
     [50504, 45236, 58, 32, 51333, 47308, 45716, 32, 47, 51333, 47308, 44, 32, 44499, 49549,
      47568, 51008, 32, 47, 119, 32, 45824, 49345, 45769, 32, 47700, 49884, 51648]"

text \<open>Lines 72 and 202, the quit command, and line 73, the closing notice.\<close>

definition CMD_QUIT :: ustr where
  "CMD_QUIT = [47, 51333, 47308]"

definition MSG_CLOSING :: ustr where
  "MSG_CLOSING = [50672, 44208, 51012, 32, 51333, 47308, 54633, 45768, 45796, 46]"

text \<open>Line 76, the whisper prefix \<^verbatim>\<open>/w\<close> followed by a space.\<close>

definition WHISPER_PREFIX :: ustr where
  "WHISPER_PREFIX = [47, 119, 32]"

text \<open>Lines 146 and 151, the usage line: "format: /w target message".\<close>

definition MSG_USAGE :: ustr where
  "MSG_USAGE =
     [54805, 49885, 58, 32, 47, 119, 32, 45824, 49345, 45769, 32, 47700, 49884, 51648]"

text \<open>Line 157, the placeholder for a sender without a nickname: "unknown".\<close>

definition MSG_UNKNOWN :: ustr where
  "MSG_UNKNOWN = [50508, 49688, 50630, 51020]"

text \<open>Line 160: "target [nickname] cannot be found".\<close>

definition notfound_line :: "ustr \<Rightarrow> ustr" where
  "notfound_line target_nick =
     [45824, 49345, 32, 91] @ target_nick
     @ [93, 51012, 40, 47484, 41, 32, 52286, 51012, 32, 49688, 32, 50630, 49845, 45768, 45796, 46]"

text \<open>Line 163, the whisper as the target reads it, and line 164, its confirmation.\<close>

definition whisper_line :: "ustr \<Rightarrow> ustr \<Rightarrow> ustr" where
  "whisper_line sender_nick message =
     [40, 44499, 49549, 47568, 41, 32] @ sender_nick @ [62, 32] @ message"

definition whisper_sent_line :: "ustr \<Rightarrow> ustr \<Rightarrow> ustr \<Rightarrow> ustr" where
  "whisper_sent_line sender_nick target_nick message =
     [40, 44499, 49549, 47568, 32, 51204, 49569, 41, 32] @ sender_nick @ [32, 45, 62, 32]
     @ target_nick @ [58, 32] @ message"

text \<open>Line 83, a chat line.\<close>

definition chat_line :: "ustr \<Rightarrow> ustr \<Rightarrow> ustr" where
  "chat_line sender msg = sender @ [62, 32] @ msg"

text \<open>Line 185, the termination notice: "the server is shutting down".\<close>

definition MSG_SHUTDOWN :: ustr where
  "MSG_SHUTDOWN = [49436, 48260, 44032, 32, 51333, 47308, 46121, 45768, 45796, 46]"

subsection \<open>The server state\<close>

record server =
  clients :: "(conn \<times> ustr) list"
  nick_map :: "(ustr \<times> conn) list"
  stop_event :: bool
  listener_closed :: bool
  closed :: "conn set"
  broken :: "conn set"
  wire :: "(conn \<times> ustr) list"

text \<open>The state \<^verbatim>\<open>__init__\<close> builds, on a network where every peer in \<open>gone\<close> fails.\<close>

definition init_server :: "conn set \<Rightarrow> server" where
  "init_server gone =
     \<lparr>clients = [], nick_map = [], stop_event = False, listener_closed = False,
      closed = {}, broken = gone, wire = []\<rparr>"

text \<open>
  \<^verbatim>\<open>_send_line\<close>: the line and a newline are written; an \<^verbatim>\<open>OSError\<close> (the socket is
  closed, or the peer is gone) is swallowed and nothing is written.
\<close>

definition send_line :: "conn \<Rightarrow> ustr \<Rightarrow> server \<Rightarrow> server" where
  "send_line sock line s =
     (if sock \<in> closed s \<or> sock \<in> broken s then s
      else s\<lparr>wire := wire s @ [(sock, line @ [10])]\<rparr>)"

text \<open>\<^verbatim>\<open>sock.close()\<close>, which may be repeated.\<close>

definition close_sock :: "conn \<Rightarrow> server \<Rightarrow> server" where
  "close_sock sock s = s\<lparr>closed := insert sock (closed s)\<rparr>"

text \<open>\<^verbatim>\<open>_get_nickname\<close>, and the lookup of line 155.\<close>

definition get_nickname :: "conn \<Rightarrow> server \<Rightarrow> ustr option" where
  "get_nickname client_sock s = map_of (clients s) client_sock"

definition lookup_conn :: "ustr \<Rightarrow> server \<Rightarrow> conn option" where
  "lookup_conn nickname s = map_of (nick_map s) nickname"

text \<open>The lines that reached one peer.\<close>

definition lines_to :: "conn \<Rightarrow> server \<Rightarrow> ustr list" where
  "lines_to sock s = map snd (filter (\<lambda>p. fst p = sock) (wire s))"

subsection \<open>The registry\<close>

text \<open>
  \<^verbatim>\<open>_make_unique_nickname\<close>. The \<^verbatim>\<open>while True\<close> loop of lines 112 to 116 may a priori
  run forever, so it returns an option: \<open>None\<close> is the loop that never returns.
\<close>

partial_function (option) nick_loop :: "ustr \<Rightarrow> server \<Rightarrow> nat \<Rightarrow> ustr option" where
  "nick_loop base s i =
     (if lookup_conn (base @ str_nat i) s = None then Some (base @ str_nat i)
      else nick_loop base s (i + 1))"

definition make_unique_nickname :: "ustr \<Rightarrow> server \<Rightarrow> ustr option" where
  "make_unique_nickname base s =
     (if lookup_conn base s = None then Some base else nick_loop base s 2)"

text \<open>\<^verbatim>\<open>_register_client\<close>.\<close>

definition register_client :: "conn \<Rightarrow> ustr \<Rightarrow> server \<Rightarrow> server" where
  "register_client client_sock nickname s =
     s\<lparr>clients := AList.update client_sock nickname (clients s),
       nick_map := AList.update nickname client_sock (nick_map s)\<rparr>"

text \<open>\<^verbatim>\<open>_broadcast\<close>: the snapshot of the keys, then one \<^verbatim>\<open>_send_line\<close> each.\<close>

definition broadcast :: "ustr \<Rightarrow> server \<Rightarrow> server" where
  "broadcast line s =
     (let targets = map fst (clients s)
      in fold (\<lambda>sock. send_line sock line) targets s)"

text \<open>
  \<^verbatim>\<open>_remove_client\<close>. Lines 125 to 128 run under the lock; \<^verbatim>\<open>if nickname:\<close> is
  false for \<^verbatim>\<open>None\<close> and for the empty string.
\<close>

definition remove_locked :: "conn \<Rightarrow> server \<Rightarrow> ustr option \<times> server" where
  "remove_locked client_sock s =
     (let nickname = map_of (clients s) client_sock;
          s1 = s\<lparr>clients := AList.delete client_sock (clients s)\<rparr>
      in case nickname of
           None \<Rightarrow> (nickname, s1)
         | Some n \<Rightarrow>
             if n \<noteq> [] then (nickname, s1\<lparr>nick_map := AList.delete n (nick_map s1)\<rparr>)
             else (nickname, s1))"

definition remove_client :: "conn \<Rightarrow> server \<Rightarrow> server" where
  "remove_client client_sock s =
     (case remove_locked client_sock s of
        (None, s1) \<Rightarrow> close_sock client_sock s1
      | (Some n, s1) \<Rightarrow>
          if n \<noteq> [] then close_sock client_sock (broadcast (leave_line n) s1)
          else close_sock client_sock s1)"

subsection \<open>Whisper\<close>

text \<open>
  \<^verbatim>\<open>_handle_whisper\<close>. \<^verbatim>\<open>split(' ', 2)\<close> gives at most three parts, so the
  unpacking of line 149 reads parts 1 and 2 of exactly three.
\<close>

definition handle_whisper :: "conn \<Rightarrow> ustr \<Rightarrow> server \<Rightarrow> server" where
  "handle_whisper sender_sock raw_cmd s =
     (let parts = split_sp 2 raw_cmd
      in if length parts < 3 then send_line sender_sock MSG_USAGE s
         else
           let target_nick = parts ! 1; message = parts ! 2
           in if target_nick = [] \<or> message = [] then send_line sender_sock MSG_USAGE s
              else
                let target_sock = lookup_conn target_nick s;
                    sender_nick =
                      (case get_nickname sender_sock s of
                         None \<Rightarrow> MSG_UNKNOWN
                       | Some n \<Rightarrow> if n = [] then MSG_UNKNOWN else n)
                in case target_sock of
                     None \<Rightarrow> send_line sender_sock (notfound_line target_nick) s
                   | Some t \<Rightarrow>
                       send_line sender_sock
                         (whisper_sent_line sender_nick target_nick message)
                         (send_line t (whisper_line sender_nick message) s))"

subsection \<open>The handler of one connection\<close>

text \<open>
  One \<^verbatim>\<open>recv(1024)\<close>: bytes that are not empty and decode, leniently, to a text;
  the empty bytes of a closed peer; \<^verbatim>\<open>ConnectionResetError\<close>; any other
  \<^verbatim>\<open>OSError\<close>.
\<close>

datatype recv = Data ustr | Eof | Reset | OsError

text \<open>
  How a handler stands when its script is used up: it has returned, an exception left
  it (after the \<^verbatim>\<open>finally\<close> clause), it waits in \<^verbatim>\<open>recv\<close>, or it never left the
  nickname search.
\<close>

datatype outcome = Returned | Raised | Blocked | Diverged

datatype hs_result = Nick ustr | NoNick | HsRaised | HsBlocked | HsDiverged

text \<open>\<^verbatim>\<open>_handshake_for_nickname\<close>, with the rest of the script.\<close>

fun handshake_for_nickname ::
  "conn \<Rightarrow> recv list \<Rightarrow> server \<Rightarrow> hs_result \<times> recv list \<times> server" where
  "handshake_for_nickname client_sock [] s =
     (HsBlocked, [], send_line client_sock MSG_PROMPT s)"
| "handshake_for_nickname client_sock (Reset # rest) s =
     (NoNick, rest, send_line client_sock MSG_PROMPT s)"
| "handshake_for_nickname client_sock (OsError # rest) s =
     (HsRaised, rest, send_line client_sock MSG_PROMPT s)"
| "handshake_for_nickname client_sock (Eof # rest) s =
     (NoNick, rest, send_line client_sock MSG_PROMPT s)"
| "handshake_for_nickname client_sock (Data txt # rest) s =
     (let s1 = send_line client_sock MSG_PROMPT s;
          raw = strip txt;
          raw = (if raw = [] then DEFAULT_BASE else raw)
      in case make_unique_nickname raw s1 of
           None \<Rightarrow> (HsDiverged, rest, s1)
         | Some nickname \<Rightarrow>
             (Nick nickname, rest, send_line client_sock (confirm_line nickname) s1))"

text \<open>The loop of lines 63 to 83.\<close>

fun client_loop :: "conn \<Rightarrow> recv list \<Rightarrow> server \<Rightarrow> outcome \<times> server" where
  "client_loop client_sock [] s = (Blocked, s)"
| "client_loop client_sock (Eof # rest) s = (Returned, s)"
| "client_loop client_sock (Reset # rest) s = (Returned, s)"
| "client_loop client_sock (OsError # rest) s = (Raised, s)"
| "client_loop client_sock (Data txt # rest) s =
     (let msg = strip txt
      in if msg = [] then client_loop client_sock rest s
         else if msg = CMD_QUIT then (Returned, send_line client_sock MSG_CLOSING s)
         else if take 3 msg = WHISPER_PREFIX
           then client_loop client_sock rest (handle_whisper client_sock msg s)
         else
           case get_nickname client_sock s of
             None \<Rightarrow> (Returned, s)
           | Some sender \<Rightarrow> client_loop client_sock rest (broadcast (chat_line sender msg) s))"

text \<open>The \<^verbatim>\<open>try\<close> block of \<^verbatim>\<open>_handle_client\<close>, lines 52 to 83.\<close>

definition handle_client_body :: "conn \<Rightarrow> recv list \<Rightarrow> server \<Rightarrow> outcome \<times> server" where
  "handle_client_body client_sock script s =
     (case handshake_for_nickname client_sock script s of
        (NoNick, rest, s1) \<Rightarrow> (Returned, close_sock client_sock s1)
      | (HsRaised, rest, s1) \<Rightarrow> (Raised, s1)
      | (HsBlocked, rest, s1) \<Rightarrow> (Blocked, s1)
      | (HsDiverged, rest, s1) \<Rightarrow> (Diverged, s1)
      | (Nick nickname, rest, s1) \<Rightarrow>
          let s2 = register_client client_sock nickname s1;
              s3 = broadcast (join_line nickname) s2;
              s4 = send_line client_sock MSG_HELP1 s3;
              s5 = send_line client_sock MSG_HELP2 s4
          in client_loop client_sock rest s5)"

text \<open>
  \<^verbatim>\<open>_handle_client\<close>: the \<^verbatim>\<open>finally\<close> clause runs whenever control leaves the
  \<^verbatim>\<open>try\<close> block, by a return, a \<^verbatim>\<open>break\<close> or an exception.
\<close>

definition handle_client :: "conn \<Rightarrow> recv list \<Rightarrow> server \<Rightarrow> outcome \<times> server" where
  "handle_client client_sock script s =
     (case handle_client_body client_sock script s of
        (Returned, s1) \<Rightarrow> (Returned, remove_client client_sock s1)
      | (Raised, s1) \<Rightarrow> (Raised, remove_client client_sock s1)
      | (Blocked, s1) \<Rightarrow> (Blocked, s1)
      | (Diverged, s1) \<Rightarrow> (Diverged, s1))"

text \<open>
  The reads that end a session in the loop: the quit command (line 72), the empty
  bytes of a closed peer (line 65), a reset (line 84) and any other read error.
\<close>

fun ends_session :: "recv \<Rightarrow> bool" where
  "ends_session (Data txt) = (strip txt = CMD_QUIT)"
| "ends_session Eof = True"
| "ends_session Reset = True"
| "ends_session OsError = True"

subsection \<open>Shutdown\<close>

text \<open>\<^verbatim>\<open>_shutdown\<close>.\<close>

definition shutdown :: "server \<Rightarrow> server" where
  "shutdown s =
     (let s1 = s\<lparr>stop_event := True\<rparr>;
          targets = map fst (clients s1);
          s2 = fold (\<lambda>sock st. close_sock sock (send_line sock MSG_SHUTDOWN st)) targets s1
      in s2\<lparr>listener_closed := True\<rparr>)"

text \<open>
  \<^verbatim>\<open>admin_console\<close> on the lines typed at the console; the end of the list is the
  \<^verbatim>\<open>EOFError\<close> of \<^verbatim>\<open>input()\<close>.
\<close>

fun admin_console :: "ustr list \<Rightarrow> server \<Rightarrow> server" where
  "admin_console [] s = s"
| "admin_console (cmd # rest) s =
     (if strip cmd = CMD_QUIT then shutdown s else admin_console rest s)"

subsection \<open>Sequences of registry calls\<close>

text \<open>
  A registration takes the nickname that \<^verbatim>\<open>_make_unique_nickname\<close> gives for a base
  at that moment; a removal is \<^verbatim>\<open>_remove_client\<close>.
\<close>

datatype reg_op = Register conn ustr | Unregister conn

fun run_ops :: "reg_op list \<Rightarrow> server \<Rightarrow> server option" where
  "run_ops [] s = Some s"
| "run_ops (Register c base # ops) s =
     (case make_unique_nickname base s of
        None \<Rightarrow> None
      | Some nickname \<Rightarrow> run_ops ops (register_client c nickname s))"
| "run_ops (Unregister c # ops) s = run_ops ops (remove_client c s)"

text \<open>
  A sequence in which a connection is registered only while it is not registered, and
  always from a base that is not empty, as \<^verbatim>\<open>_handle_client\<close> does.
\<close>

fun fresh_ops :: "conn list \<Rightarrow> reg_op list \<Rightarrow> bool" where
  "fresh_ops live [] = True"
| "fresh_ops live (Register c base # ops) =
     (c \<notin> set live \<and> base \<noteq> [] \<and> fresh_ops (c # live) ops)"
| "fresh_ops live (Unregister c # ops) = fresh_ops (removeAll c live) ops"

definition bijective :: "server \<Rightarrow> bool" where
  "bijective s =
     ((\<forall>c n. get_nickname c s = Some n \<longrightarrow> lookup_conn n s = Some c)
      \<and> (\<forall>n c. lookup_conn n s = Some c \<longrightarrow> get_nickname c s = Some n))"

subsection \<open>Handshakes of several connections\<close>

text \<open>
  The lock is held in \<^verbatim>\<open>_make_unique_nickname\<close> (lines 108 to 116) and again in
  \<^verbatim>\<open>_register_client\<close> (lines 119 to 121), and is free in between. A handshake
  thread therefore takes two steps that other threads cannot cut: the search for a
  nickname, with the confirmation line that follows it, and the registration. A
  schedule names the thread that takes the next step.
\<close>

datatype hs_thread = AtGenerate ustr | AtRegister ustr | Finished

fun hs_step ::
  "conn \<Rightarrow> (conn \<times> hs_thread) list \<Rightarrow> server \<Rightarrow> ((conn \<times> hs_thread) list \<times> server) option" where
  "hs_step c threads s =
     (case map_of threads c of
        Some (AtGenerate base) \<Rightarrow>
          (case make_unique_nickname base s of
             None \<Rightarrow> None
           | Some nickname \<Rightarrow>
               Some (AList.update c (AtRegister nickname) threads,
                     send_line c (confirm_line nickname) s))
      | Some (AtRegister nickname) \<Rightarrow>
          Some (AList.update c Finished threads, register_client c nickname s)
      | Some Finished \<Rightarrow> Some (threads, s)
      | None \<Rightarrow> Some (threads, s))"

fun run_schedule ::
  "conn list \<Rightarrow> (conn \<times> hs_thread) list \<Rightarrow> server \<Rightarrow> ((conn \<times> hs_thread) list \<times> server) option" where
  "run_schedule [] threads s = Some (threads, s)"
| "run_schedule (c # cs) threads s =
     (case hs_step c threads s of
        None \<Rightarrow> None
      | Some (threads', s') \<Rightarrow> run_schedule cs threads' s')"

subsection \<open>Example states\<close>

text \<open>Two sessions, \<^verbatim>\<open>a\<close> on connection 1 and \<^verbatim>\<open>a2\<close> on connection 2.\<close>

definition ex_two :: server where
  "ex_two =
     (init_server {})\<lparr>clients := [(1, [97]), (2, [97, 50])],
                       nick_map := [([97], 1), ([97, 50], 2)]\<rparr>"

text \<open>The same, with the peer of connection 1 gone.\<close>

definition ex_lossy :: server where
  "ex_lossy = ex_two\<lparr>broken := {1}\<rparr>"

text \<open>One session, \<^verbatim>\<open>a\<close> on connection 1.\<close>

definition ex_one :: server where
  "ex_one = (init_server {})\<lparr>clients := [(1, [97])], nick_map := [([97], 1)]\<rparr>"

text \<open>
  The state after a shutdown of \<open>ex_one\<close> followed by the handshake of connection 2,
  which asks for \<^verbatim>\<open>b\<close>.
\<close>

definition ex_late :: server where
  "ex_late = snd (handle_client 2 [Data [98]] (shutdown ex_one))"

text \<open>No registered nickname is the empty string.\<close>

definition nonempty_nicks :: "server \<Rightarrow> bool" where
  "nonempty_nicks s = (\<forall>c n. get_nickname c s = Some n \<longrightarrow> n \<noteq> [])"

text \<open>
  Two connections ask for \<^verbatim>\<open>a\<close>, then the first leaves; the state this ends in.
\<close>

definition ex_ops :: "reg_op list" where
  "ex_ops = [Register 1 [97], Register 2 [97], Unregister 1]"

definition ex_final :: server where
  "ex_final =
     (init_server {})\<lparr>clients := [(2, [97, 50])], nick_map := [([97, 50], 2)], closed := {1},
       wire := [(2, leave_line [97] @ [10])]\<rparr>"

text \<open>Connection 1 registered twice, as \<^verbatim>\<open>a\<close> and then as \<^verbatim>\<open>b\<close>.\<close>

definition ex_double :: server where
  "ex_double = (init_server {})\<lparr>clients := [(1, [98])], nick_map := [([97], 1), ([98], 1)]\<rparr>"

text \<open>Connection 1 registered under the empty nickname and removed.\<close>

definition ex_empty_nick :: server where
  "ex_empty_nick = (init_server {})\<lparr>nick_map := [([], 1)], closed := {1}\<rparr>"

text \<open>Connection 3 joins \<open>ex_two\<close> asking for \<^verbatim>\<open>a\<close> and then waits.\<close>

definition ex_joined :: server where
  "ex_joined = snd (handle_client 3 [Data [32, 97, 32]] ex_two)"

text \<open>
  Connection 3 joins \<open>ex_two\<close> as \<^verbatim>\<open>b\<close>, says \<^verbatim>\<open>hi\<close>, and then its peer
  closes; the same with a read error in place of the close; the same with the quit
  command.
\<close>

definition ex_disconnect :: "recv list" where
  "ex_disconnect = [Data [98], Data [104, 105], Eof]"

definition ex_read_error :: "recv list" where
  "ex_read_error = [Data [98], Data [104, 105], OsError]"

definition ex_quit :: "recv list" where
  "ex_quit = [Data [98], Data [104, 105], Data [47, 51333, 47308]]"

section \<open>Properties\<close>

lemmas msg_defs =
  MSG_PROMPT_def DEFAULT_BASE_def confirm_line_def join_line_def leave_line_def
  MSG_HELP1_def MSG_HELP2_def CMD_QUIT_def MSG_CLOSING_def WHISPER_PREFIX_def
  MSG_USAGE_def MSG_UNKNOWN_def notfound_line_def whisper_line_def
  whisper_sent_line_def chat_line_def MSG_SHUTDOWN_def

subsection \<open>Decimal numerals\<close>

lemma str_nat_nonempty: "str_nat n \<noteq> []"
  by (subst str_nat.simps) simp

lemma str_nat_inj: "str_nat m = str_nat n \<Longrightarrow> m = n"
proof (induction m arbitrary: n rule: str_nat.induct)
  case (1 m)
  show ?case
  proof (cases "m < 10")
    case True
    then have m: "str_nat m = [48 + m]" by (subst str_nat.simps) simp
    show ?thesis
    proof (cases "n < 10")
      case True
      then have "str_nat n = [48 + n]" by (subst str_nat.simps) simp
      with m "1.prems" show ?thesis by simp
    next
      case False
      then have "str_nat n = str_nat (n div 10) @ [48 + n mod 10]"
        by (subst str_nat.simps) simp
      with m "1.prems" have "str_nat (n div 10) = []" by simp
      then show ?thesis by (simp add: str_nat_nonempty)
    qed
  next
    case False
    then have m: "str_nat m = str_nat (m div 10) @ [48 + m mod 10]"
      by (subst str_nat.simps) simp
    show ?thesis
    proof (cases "n < 10")
      case True
      then have "str_nat n = [48 + n]" by (subst str_nat.simps) simp
      with m "1.prems" have "str_nat (m div 10) = []" by simp
      then show ?thesis by (simp add: str_nat_nonempty)
    next
      case n: False
      then have "str_nat n = str_nat (n div 10) @ [48 + n mod 10]"
        by (subst str_nat.simps) simp
      with m "1.prems" have a: "str_nat (m div 10) = str_nat (n div 10)"
        and b: "m mod 10 = n mod 10"
        by simp_all
      from "1.IH" [OF False a] have "m div 10 = n div 10" .
      with b show ?thesis by (metis div_mult_mod_eq)
    qed
  qed
qed

subsection \<open>The nickname search\<close>

lemma free_index_exists: "\<exists>k\<ge>i. lookup_conn (base @ str_nat k) s = None"
proof (rule ccontr)
  assume "\<not> (\<exists>k\<ge>i. lookup_conn (base @ str_nat k) s = None)"
  then have "(\<lambda>k. base @ str_nat k) ` {i..} \<subseteq> dom (map_of (nick_map s))"
    by (auto simp: lookup_conn_def)
  then have "finite ((\<lambda>k. base @ str_nat k) ` {i..})"
    by (rule finite_subset) (rule finite_dom_map_of)
  moreover have "inj_on (\<lambda>k. base @ str_nat k) {i..}"
    by (auto simp: inj_on_def dest: str_nat_inj)
  ultimately have "finite {i..}"
    by (rule finite_imageD)
  then show False
    by (simp add: infinite_Ici)
qed

lemma nick_loop_first_free:
  "i \<le> k \<Longrightarrow> lookup_conn (base @ str_nat k) s = None
   \<Longrightarrow> (\<forall>j. i \<le> j \<and> j < k \<longrightarrow> lookup_conn (base @ str_nat j) s \<noteq> None)
   \<Longrightarrow> nick_loop base s i = Some (base @ str_nat k)"
proof (induction "k - i" arbitrary: i)
  case 0
  then have "i = k" by simp
  with "0.prems" show ?case
    by (subst nick_loop.simps) simp
next
  case (Suc d)
  then have lt: "i < k" by simp
  with Suc.prems have taken: "lookup_conn (base @ str_nat i) s \<noteq> None" by simp
  have "nick_loop base s (i + 1) = Some (base @ str_nat k)"
  proof (rule Suc.hyps(1))
    show "d = k - (i + 1)" using Suc.hyps(2) by simp
    show "i + 1 \<le> k" using lt by simp
    show "lookup_conn (base @ str_nat k) s = None" by (rule Suc.prems(2))
    show "\<forall>j. i + 1 \<le> j \<and> j < k \<longrightarrow> lookup_conn (base @ str_nat j) s \<noteq> None"
      using Suc.prems(3) by simp
  qed
  with taken show ?case
    by (subst nick_loop.simps) auto
qed

lemma nick_loop_result:
  "\<exists>k\<ge>i. nick_loop base s i = Some (base @ str_nat k)
     \<and> lookup_conn (base @ str_nat k) s = None
     \<and> (\<forall>j. i \<le> j \<and> j < k \<longrightarrow> lookup_conn (base @ str_nat j) s \<noteq> None)"
proof -
  define P where "P k \<longleftrightarrow> i \<le> k \<and> lookup_conn (base @ str_nat k) s = None" for k
  from free_index_exists [of i base s] have ex: "\<exists>k. P k"
    by (auto simp: P_def)
  define k where "k = (LEAST k. P k)"
  have Pk: "P k" unfolding k_def using ex by (rule LeastI_ex)
  have least: "\<not> P j" if "j < k" for j
    using that unfolding k_def by (rule not_less_Least)
  have "\<forall>j. i \<le> j \<and> j < k \<longrightarrow> lookup_conn (base @ str_nat j) s \<noteq> None"
    using least by (auto simp: P_def)
  moreover from Pk have "i \<le> k" and "lookup_conn (base @ str_nat k) s = None"
    by (simp_all add: P_def)
  ultimately show ?thesis
    using nick_loop_first_free [of i k base s] by blast
qed


lemma make_unique_depends_on_taken:
  assumes "\<forall>n. (lookup_conn n s' = None) = (lookup_conn n s = None)"
  shows "make_unique_nickname base s' = make_unique_nickname base s"
proof (cases "lookup_conn base s = None")
  case True
  with assms show ?thesis by (simp add: make_unique_nickname_def)
next
  case False
  obtain k where k: "2 \<le> k" "nick_loop base s 2 = Some (base @ str_nat k)"
    "lookup_conn (base @ str_nat k) s = None"
    "\<forall>j. 2 \<le> j \<and> j < k \<longrightarrow> lookup_conn (base @ str_nat j) s \<noteq> None"
    using nick_loop_result [of 2 base s] by blast
  have "nick_loop base s' 2 = Some (base @ str_nat k)"
    using k assms by (intro nick_loop_first_free) auto
  with k False assms show ?thesis by (auto simp: make_unique_nickname_def)
qed

text \<open>
  C4. \<^verbatim>\<open>_make_unique_nickname\<close> returns the base when the base is not taken;
  otherwise the base followed by the smallest number from 2 on whose candidate is not
  taken. The result depends only on the base and on which nicknames are taken.
\<close>

theorem make_unique_nickname_spec:
  "(lookup_conn base s = None \<longrightarrow> make_unique_nickname base s = Some base)
   \<and> (lookup_conn base s \<noteq> None \<longrightarrow>
        (\<exists>k\<ge>2. make_unique_nickname base s = Some (base @ str_nat k)
           \<and> lookup_conn (base @ str_nat k) s = None
           \<and> (\<forall>j. 2 \<le> j \<and> j < k \<longrightarrow> lookup_conn (base @ str_nat j) s \<noteq> None)))
   \<and> ((\<forall>n. (lookup_conn n s' = None) = (lookup_conn n s = None))
        \<longrightarrow> make_unique_nickname base s' = make_unique_nickname base s)"
  using nick_loop_result [of 2 base s] make_unique_depends_on_taken [of s' s base]
  by (auto simp: make_unique_nickname_def)

lemma str_nat_2: "str_nat 2 = [50]" by (simp add: str_nat.simps)
lemma str_nat_3: "str_nat 3 = [51]" by (simp add: str_nat.simps)

theorem make_unique_nickname_spec_witness:
  "lookup_conn [97] ex_two \<noteq> None \<and> make_unique_nickname [97] ex_two = Some [97, 51]
   \<and> lookup_conn [98] ex_two = None \<and> make_unique_nickname [98] ex_two = Some [98]"
  using make_unique_nickname_spec [of "[97]" ex_two ex_two]
    make_unique_nickname_spec [of "[98]" ex_two ex_two]
  by (simp add: ex_two_def init_server_def lookup_conn_def make_unique_nickname_def
      nick_loop.simps str_nat.simps)

subsection \<open>Sending\<close>

lemma send_line_eq:
  "send_line sock line s =
     s\<lparr>wire := wire s @ (if sock \<in> closed s \<or> sock \<in> broken s then [] else [(sock, line @ [10])])\<rparr>"
  by (simp add: send_line_def)

lemma send_line_fields [simp]:
  "clients (send_line sock line s) = clients s"
  "nick_map (send_line sock line s) = nick_map s"
  "closed (send_line sock line s) = closed s"
  "broken (send_line sock line s) = broken s"
  "stop_event (send_line sock line s) = stop_event s"
  "listener_closed (send_line sock line s) = listener_closed s"
  by (simp_all add: send_line_def)

lemma get_nickname_send_line [simp]:
  "get_nickname c (send_line sock line s) = get_nickname c s"
  by (simp add: get_nickname_def)

lemma lookup_conn_send_line [simp]:
  "lookup_conn n (send_line sock line s) = lookup_conn n s"
  by (simp add: lookup_conn_def)

lemma fold_send_line:
  "fold (\<lambda>sock. send_line sock line) targets s =
     s\<lparr>wire := wire s @ map (\<lambda>c. (c, line @ [10]))
                         (filter (\<lambda>c. c \<notin> closed s \<and> c \<notin> broken s) targets)\<rparr>"
proof (induction targets arbitrary: s)
  case Nil
  show ?case by simp
next
  case (Cons c targets)
  show ?case
    by (simp add: Cons.IH) (simp add: send_line_def)
qed

lemma broadcast_eq:
  "broadcast line s =
     s\<lparr>wire := wire s @ map (\<lambda>c. (c, line @ [10]))
                         (filter (\<lambda>c. c \<notin> closed s \<and> c \<notin> broken s) (map fst (clients s)))\<rparr>"
  by (simp add: broadcast_def fold_send_line)

lemma broadcast_fields [simp]:
  "clients (broadcast line s) = clients s"
  "nick_map (broadcast line s) = nick_map s"
  "closed (broadcast line s) = closed s"
  "broken (broadcast line s) = broken s"
  "stop_event (broadcast line s) = stop_event s"
  "listener_closed (broadcast line s) = listener_closed s"
  by (simp_all add: broadcast_eq)

lemma get_nickname_broadcast [simp]:
  "get_nickname c (broadcast line s) = get_nickname c s"
  by (simp add: get_nickname_def)

lemma lookup_conn_broadcast [simp]:
  "lookup_conn n (broadcast line s) = lookup_conn n s"
  by (simp add: lookup_conn_def)

subsection \<open>Broadcast and whisper\<close>

lemma whisper_prefix_not_quit:
  "take 3 msg = WHISPER_PREFIX \<Longrightarrow> msg \<noteq> [] \<and> msg \<noteq> CMD_QUIT"
  by (auto simp: WHISPER_PREFIX_def CMD_QUIT_def)

text \<open>
  C5. A broadcast of a line reaches exactly the connections of the snapshot of the
  registry keys on which the write does not fail, in the order of the snapshot, each
  with that line and a newline; no other connection receives anything and nothing else
  in the state changes. A failing write is skipped and the following connections are
  still written. A chat message of a registered sender is broadcast as
  \<open>sender> message\<close> and the sender's loop goes on with its next read.
\<close>

theorem broadcast_delivers:
  "broadcast line s =
     s\<lparr>wire := wire s @ map (\<lambda>c. (c, line @ [10]))
                         (filter (\<lambda>c. c \<notin> closed s \<and> c \<notin> broken s) (map fst (clients s)))\<rparr>
   \<and> (get_nickname sock s = Some sender \<and> strip txt \<noteq> [] \<and> strip txt \<noteq> CMD_QUIT
        \<and> take 3 (strip txt) \<noteq> WHISPER_PREFIX
      \<longrightarrow> client_loop sock (Data txt # rest) s =
            client_loop sock rest (broadcast (chat_line sender (strip txt)) s))"
  by (simp add: broadcast_eq)

text \<open>
  C8. A whisper line with fewer than three fields, or with an empty target or message,
  makes \<^verbatim>\<open>_handle_whisper\<close> send the usage line to the sender and nothing else;
  a well-formed whisper to a nickname that is not registered makes it send the
  not-found line to the sender and nothing else. Sending one line changes only the
  wire, by at most that line to that connection: the registry is unchanged.
\<close>

theorem whisper_error_replies:
  "(length (split_sp 2 raw_cmd) < 3 \<or> split_sp 2 raw_cmd ! 1 = [] \<or> split_sp 2 raw_cmd ! 2 = []
      \<longrightarrow> handle_whisper sender raw_cmd s = send_line sender MSG_USAGE s)
   \<and> (split_sp 2 raw_cmd = [w, target, message] \<and> target \<noteq> [] \<and> message \<noteq> []
        \<and> lookup_conn target s = None
      \<longrightarrow> handle_whisper sender raw_cmd s = send_line sender (notfound_line target) s)
   \<and> send_line sender line s =
       s\<lparr>wire := wire s @ (if sender \<in> closed s \<or> sender \<in> broken s then []
                           else [(sender, line @ [10])])\<rparr>"
  by (auto simp: handle_whisper_def Let_def send_line_eq)

text \<open>
  C9. When the sender has no nickname and the target is registered, the whisper is
  delivered to the target and confirmed to the sender under the placeholder name, and
  the sender's loop goes on; a chat message of the same sender ends the loop silently.
\<close>

theorem whisper_from_unregistered_sender:
  assumes "get_nickname sender s = None"
    and "split_sp 2 raw_cmd = [w, target, message]"
    and "target \<noteq> []" and "message \<noteq> []"
    and "lookup_conn target s = Some t"
  shows "handle_whisper sender raw_cmd s =
           send_line sender (whisper_sent_line MSG_UNKNOWN target message)
             (send_line t (whisper_line MSG_UNKNOWN message) s)
         \<and> (strip txt = raw_cmd \<and> take 3 raw_cmd = WHISPER_PREFIX
              \<longrightarrow> client_loop sender (Data txt # rest) s =
                    client_loop sender rest (handle_whisper sender raw_cmd s))
         \<and> (strip txt' \<noteq> [] \<and> strip txt' \<noteq> CMD_QUIT \<and> take 3 (strip txt') \<noteq> WHISPER_PREFIX
              \<longrightarrow> client_loop sender (Data txt' # rest) s = (Returned, s))"
proof (intro conjI impI)
  show "handle_whisper sender raw_cmd s =
          send_line sender (whisper_sent_line MSG_UNKNOWN target message)
            (send_line t (whisper_line MSG_UNKNOWN message) s)"
    using assms by (simp add: handle_whisper_def Let_def)
next
  assume a: "strip txt = raw_cmd \<and> take 3 raw_cmd = WHISPER_PREFIX"
  with whisper_prefix_not_quit [of raw_cmd]
  show "client_loop sender (Data txt # rest) s =
          client_loop sender rest (handle_whisper sender raw_cmd s)"
    by simp
next
  assume "strip txt' \<noteq> [] \<and> strip txt' \<noteq> CMD_QUIT \<and> take 3 (strip txt') \<noteq> WHISPER_PREFIX"
  with assms(1) show "client_loop sender (Data txt' # rest) s = (Returned, s)"
    by simp
qed


lemmas ex_defs = ex_two_def ex_lossy_def init_server_def

lemma split_sp_2:
  "split_sp 2 s =
     (if 32 \<in> set s
      then takeWhile (\<lambda>c. c \<noteq> 32) s # split_sp (Suc 0) (tl (dropWhile (\<lambda>c. c \<noteq> 32) s))
      else [s])"
  by (simp add: numeral_2_eq_2)

theorem broadcast_delivers_witness:
  "get_nickname 2 ex_lossy = Some [97, 50] \<and> strip [32, 104, 105, 32] \<noteq> []
   \<and> strip [32, 104, 105, 32] \<noteq> CMD_QUIT \<and> take 3 (strip [32, 104, 105, 32]) \<noteq> WHISPER_PREFIX
   \<and> client_loop 2 [Data [32, 104, 105, 32]] ex_lossy =
       (Blocked, ex_lossy\<lparr>wire := [(2, [97, 50, 62, 32, 104, 105, 10])]\<rparr>)"
  using broadcast_delivers [of "chat_line [97, 50] [104, 105]" ex_lossy 2 "[97, 50]"
      "[32, 104, 105, 32]" "[]"]
  by (simp add: ex_defs get_nickname_def strip_def is_space_def msg_defs)

theorem whisper_error_replies_witness:
  "length (split_sp 2 [47, 119, 32, 98]) < 3
   \<and> handle_whisper 2 [47, 119, 32, 98] ex_two = ex_two\<lparr>wire := [(2, MSG_USAGE @ [10])]\<rparr>
   \<and> split_sp 2 [47, 119, 32, 122, 32, 104] = [[47, 119], [122], [104]]
   \<and> lookup_conn [122] ex_two = None
   \<and> handle_whisper 2 [47, 119, 32, 122, 32, 104] ex_two =
       ex_two\<lparr>wire := [(2, notfound_line [122] @ [10])]\<rparr>"
  using whisper_error_replies [of "[47, 119, 32, 98]" 2 ex_two "[47, 119]" "[122]" "[104]" MSG_USAGE]
    whisper_error_replies [of "[47, 119, 32, 122, 32, 104]" 2 ex_two "[47, 119]" "[122]" "[104]"
      "notfound_line [122]"]
  by (simp add: ex_defs split_sp_2 lookup_conn_def)

theorem whisper_from_unregistered_sender_witness:
  "get_nickname 3 ex_two = None
   \<and> split_sp 2 [47, 119, 32, 97, 32, 104, 105] = [[47, 119], [97], [104, 105]]
   \<and> lookup_conn [97] ex_two = Some 1
   \<and> strip [47, 119, 32, 97, 32, 104, 105] = [47, 119, 32, 97, 32, 104, 105]
   \<and> take 3 [47, 119, 32, 97, 32, 104, 105] = WHISPER_PREFIX
   \<and> client_loop 3 [Data [47, 119, 32, 97, 32, 104, 105]] ex_two =
       (Blocked,
        ex_two\<lparr>wire := [(1, whisper_line MSG_UNKNOWN [104, 105] @ [10]),
                         (3, whisper_sent_line MSG_UNKNOWN [97] [104, 105] @ [10])]\<rparr>)
   \<and> client_loop 3 [Data [104, 105]] ex_two = (Returned, ex_two)"
  using whisper_from_unregistered_sender [of 3 ex_two "[47, 119, 32, 97, 32, 104, 105]"
      "[47, 119]" "[97]" "[104, 105]" 1 "[47, 119, 32, 97, 32, 104, 105]" "[]" "[104, 105]"]
  by (simp add: ex_defs split_sp_2 lookup_conn_def get_nickname_def strip_def is_space_def
      WHISPER_PREFIX_def CMD_QUIT_def send_line_def)

subsection \<open>Shutdown\<close>

lemma close_sock_fields [simp]:
  "clients (close_sock sock s) = clients s"
  "nick_map (close_sock sock s) = nick_map s"
  "closed (close_sock sock s) = insert sock (closed s)"
  "broken (close_sock sock s) = broken s"
  "stop_event (close_sock sock s) = stop_event s"
  "listener_closed (close_sock sock s) = listener_closed s"
  "wire (close_sock sock s) = wire s"
  by (simp_all add: close_sock_def)

lemma close_sock_closed: "sock \<in> closed s \<Longrightarrow> close_sock sock s = s"
  by (simp add: close_sock_def insert_absorb)

lemma drain_fields:
  "clients (fold (\<lambda>sock st. close_sock sock (send_line sock line st)) targets s) = clients s"
  "stop_event (fold (\<lambda>sock st. close_sock sock (send_line sock line st)) targets s) = stop_event s"
  "listener_closed (fold (\<lambda>sock st. close_sock sock (send_line sock line st)) targets s)
     = listener_closed s"
  "closed (fold (\<lambda>sock st. close_sock sock (send_line sock line st)) targets s)
     = closed s \<union> set targets"
  by (induction targets arbitrary: s) simp_all

lemma drain_closed:
  "set targets \<subseteq> closed s
   \<Longrightarrow> fold (\<lambda>sock st. close_sock sock (send_line sock line st)) targets s = s"
proof (induction targets arbitrary: s)
  case Nil
  show ?case by simp
next
  case (Cons c targets)
  then have "c \<in> closed s" by simp
  then have "close_sock c (send_line c line s) = s"
    by (simp add: send_line_def close_sock_closed)
  with Cons show ?case by simp
qed

lemma shutdown_fields:
  "stop_event (shutdown s)" "listener_closed (shutdown s)"
  "clients (shutdown s) = clients s"
  "closed (shutdown s) = closed s \<union> fst ` set (clients s)"
  by (simp_all add: shutdown_def Let_def drain_fields)

lemma shutdown_idem: "shutdown (shutdown s) = shutdown s"
proof -
  let ?t = "shutdown s"
  have stop: "?t\<lparr>stop_event := True\<rparr> = ?t"
    using shutdown_fields(1) [of s] by simp
  have "set (map fst (clients ?t)) \<subseteq> closed ?t"
    by (simp add: shutdown_fields)
  then have "fold (\<lambda>sock st. close_sock sock (send_line sock MSG_SHUTDOWN st))
               (map fst (clients ?t)) ?t = ?t"
    by (rule drain_closed)
  moreover have "?t\<lparr>listener_closed := True\<rparr> = ?t"
    using shutdown_fields(2) [of s] by simp
  ultimately show ?thesis
    using stop by (subst (1) shutdown_def) (simp add: Let_def)
qed

text \<open>
  C3, amended. \<^verbatim>\<open>_shutdown\<close> has no guard: every call sets the flag and runs the
  drain over the connections registered at that moment. A call that directly follows
  another one, such as the call in the \<^verbatim>\<open>finally\<close> clause of \<^verbatim>\<open>start\<close> after the
  quit command of the console, changes nothing: every connection of the snapshot is
  already closed, so no notice is delivered, and closing again is a no-op. After any
  call the flag is set, the listener is closed and every registered connection is
  closed.
\<close>

theorem shutdown_repeated:
  "shutdown (shutdown s) = shutdown s
   \<and> (strip cmd = CMD_QUIT \<longrightarrow>
        shutdown (admin_console (cmd # rest) s) = admin_console (cmd # rest) s)
   \<and> stop_event (shutdown s) \<and> listener_closed (shutdown s)
   \<and> closed (shutdown s) = closed s \<union> fst ` set (clients s)"
  by (simp add: shutdown_idem shutdown_fields)

theorem shutdown_repeated_witness:
  "strip [32, 47, 51333, 47308] = CMD_QUIT
   \<and> shutdown (admin_console [[32, 47, 51333, 47308]] ex_one)
       = admin_console [[32, 47, 51333, 47308]] ex_one
   \<and> wire (admin_console [[32, 47, 51333, 47308]] ex_one) = [(1, MSG_SHUTDOWN @ [10])]
   \<and> closed (admin_console [[32, 47, 51333, 47308]] ex_one) = {1}"
  using shutdown_repeated [of ex_one "[32, 47, 51333, 47308]" "[]"]
  by (simp add: strip_def is_space_def CMD_QUIT_def ex_one_def init_server_def shutdown_def
      send_line_def close_sock_def Let_def)

lemma ex_late_eq:
  "ex_late =
     (init_server {})\<lparr>clients := [(1, [97]), (2, [98])], nick_map := [([97], 1), ([98], 2)],
       stop_event := True, listener_closed := True, closed := {1},
       wire := [(1, MSG_SHUTDOWN @ [10]), (2, MSG_PROMPT @ [10]), (2, confirm_line [98] @ [10]),
                (2, join_line [98] @ [10]), (2, MSG_HELP1 @ [10]), (2, MSG_HELP2 @ [10])]\<rparr>"
  by (simp add: ex_late_def ex_one_def init_server_def handle_client_def handle_client_body_def
      shutdown_def broadcast_def send_line_def close_sock_def register_client_def
      make_unique_nickname_def lookup_conn_def strip_def is_space_def Let_def)

text \<open>
  C3, counterexample. Connection 1 is registered, the console triggers a shutdown, the
  handler of connection 2 (accepted before) completes its handshake, and the
  \<^verbatim>\<open>finally\<close> clause of \<^verbatim>\<open>start\<close> calls \<^verbatim>\<open>_shutdown\<close> again: the drain
  runs a second time, connection 2 receives the termination notice and is closed.
\<close>

theorem shutdown_runs_again:
  "stop_event ex_late \<and> 2 \<notin> closed ex_late \<and> 2 \<in> closed (shutdown ex_late)
   \<and> wire (shutdown ex_late) = wire ex_late @ [(2, MSG_SHUTDOWN @ [10])]
   \<and> shutdown ex_late \<noteq> ex_late"
proof -
  have a: "stop_event ex_late" "2 \<notin> closed ex_late"
    by (simp_all add: ex_late_eq init_server_def)
  have b: "2 \<in> closed (shutdown ex_late)"
    by (simp add: shutdown_fields ex_late_eq init_server_def)
  have c: "wire (shutdown ex_late) = wire ex_late @ [(2, MSG_SHUTDOWN @ [10])]"
    by (simp add: ex_late_eq init_server_def shutdown_def send_line_def close_sock_def Let_def)
  from a b have "shutdown ex_late \<noteq> ex_late" by auto
  with a b c show ?thesis by simp
qed

text \<open>
  C1. Two connections ask for the same base on an empty registry. When both searches
  run before either registration (schedule 1, 2, 1, 2), both are confirmed and
  registered under the same nickname, and the nickname map keeps only the second; when
  each handshake completes before the next starts (schedule 1, 1, 2, 2), the second
  gets the suffix 2.
\<close>

theorem nickname_race:
  "run_schedule [1, 2, 1, 2] [(1, AtGenerate [98]), (2, AtGenerate [98])] (init_server {}) =
     Some ([(1, Finished), (2, Finished)],
           (init_server {})\<lparr>clients := [(1, [98]), (2, [98])], nick_map := [([98], 2)],
             wire := [(1, confirm_line [98] @ [10]), (2, confirm_line [98] @ [10])]\<rparr>)
   \<and> run_schedule [1, 1, 2, 2] [(1, AtGenerate [98]), (2, AtGenerate [98])] (init_server {}) =
     Some ([(1, Finished), (2, Finished)],
           (init_server {})\<lparr>clients := [(1, [98]), (2, [98, 50])],
             nick_map := [([98], 1), ([98, 50], 2)],
             wire := [(1, confirm_line [98] @ [10]), (2, confirm_line [98, 50] @ [10])]\<rparr>)"
  by (simp add: init_server_def make_unique_nickname_def lookup_conn_def nick_loop.simps
      str_nat_2 send_line_def register_client_def)

subsection \<open>Registry invariants\<close>

lemma get_nickname_register [simp]:
  "get_nickname c' (register_client c n s) = (if c' = c then Some n else get_nickname c' s)"
  by (simp add: get_nickname_def register_client_def update_conv')

lemma lookup_conn_register [simp]:
  "lookup_conn n' (register_client c n s) = (if n' = n then Some c else lookup_conn n' s)"
  by (simp add: lookup_conn_def register_client_def update_conv')

lemma remove_client_eq:
  "remove_client c s =
     close_sock c
       (case get_nickname c s of
          None \<Rightarrow> s\<lparr>clients := AList.delete c (clients s)\<rparr>
        | Some n \<Rightarrow>
            if n \<noteq> []
            then broadcast (leave_line n)
                   (s\<lparr>clients := AList.delete c (clients s),
                      nick_map := AList.delete n (nick_map s)\<rparr>)
            else s\<lparr>clients := AList.delete c (clients s)\<rparr>)"
  by (simp add: remove_client_def remove_locked_def get_nickname_def Let_def
      split: option.splits)

lemma get_nickname_remove [simp]:
  "get_nickname c' (remove_client c s) = (if c' = c then None else get_nickname c' s)"
  by (simp add: remove_client_eq split: option.splits)
    (simp add: get_nickname_def delete_conv')

lemma lookup_conn_remove:
  "lookup_conn n' (remove_client c s) =
     (case get_nickname c s of
        None \<Rightarrow> lookup_conn n' s
      | Some n \<Rightarrow> if n \<noteq> [] \<and> n' = n then None else lookup_conn n' s)"
  by (simp add: remove_client_eq split: option.splits)
    (simp add: lookup_conn_def delete_conv')

lemma closed_remove [simp]: "closed (remove_client c s) = insert c (closed s)"
  by (simp add: remove_client_eq split: option.splits)

lemma bijectiveD1:
  "bijective s \<Longrightarrow> get_nickname c s = Some n \<Longrightarrow> lookup_conn n s = Some c"
  unfolding bijective_def by blast

lemma bijectiveD2:
  "bijective s \<Longrightarrow> lookup_conn n s = Some c \<Longrightarrow> get_nickname c s = Some n"
  unfolding bijective_def by blast

lemma bijective_register:
  assumes b: "bijective s" and c: "get_nickname c s = None" and n: "lookup_conn n s = None"
  shows "bijective (register_client c n s)"
  unfolding bijective_def
proof (intro conjI allI impI)
  fix c' n'
  assume h: "get_nickname c' (register_client c n s) = Some n'"
  show "lookup_conn n' (register_client c n s) = Some c'"
  proof (cases "c' = c")
    case True
    with h have "n' = n" by simp
    with True show ?thesis by simp
  next
    case False
    with h have "get_nickname c' s = Some n'" by simp
    with b have l: "lookup_conn n' s = Some c'" by (rule bijectiveD1)
    with n have "n' \<noteq> n" by auto
    with l show ?thesis by simp
  qed
next
  fix n' c'
  assume h: "lookup_conn n' (register_client c n s) = Some c'"
  show "get_nickname c' (register_client c n s) = Some n'"
  proof (cases "n' = n")
    case True
    with h have "c' = c" by simp
    with True show ?thesis by simp
  next
    case False
    with h have "lookup_conn n' s = Some c'" by simp
    with b have g: "get_nickname c' s = Some n'" by (rule bijectiveD2)
    with c have "c' \<noteq> c" by auto
    with g show ?thesis by simp
  qed
qed

lemma bijective_remove:
  assumes b: "bijective s" and ne: "nonempty_nicks s"
  shows "bijective (remove_client c s)"
proof (cases "get_nickname c s")
  case None
  have l: "lookup_conn n' (remove_client c s) = lookup_conn n' s" for n'
    using None by (simp add: lookup_conn_remove)
  show ?thesis
    unfolding bijective_def
  proof (intro conjI allI impI)
    fix c' n'
    assume "get_nickname c' (remove_client c s) = Some n'"
    then have "get_nickname c' s = Some n'" by (simp split: if_splits)
    with b show "lookup_conn n' (remove_client c s) = Some c'"
      unfolding l by (rule bijectiveD1)
  next
    fix n' c'
    assume "lookup_conn n' (remove_client c s) = Some c'"
    then have "lookup_conn n' s = Some c'" unfolding l .
    with b have g: "get_nickname c' s = Some n'" by (rule bijectiveD2)
    with None have "c' \<noteq> c" by auto
    with g show "get_nickname c' (remove_client c s) = Some n'" by simp
  qed
next
  case (Some n)
  with ne have n: "n \<noteq> []" unfolding nonempty_nicks_def by blast
  have l: "lookup_conn n' (remove_client c s) = (if n' = n then None else lookup_conn n' s)" for n'
    using Some n by (simp add: lookup_conn_remove)
  from b Some have ln: "lookup_conn n s = Some c" by (rule bijectiveD1)
  show ?thesis
    unfolding bijective_def
  proof (intro conjI allI impI)
    fix c' n'
    assume h: "get_nickname c' (remove_client c s) = Some n'"
    then have c': "c' \<noteq> c" by (simp split: if_splits)
    with h have g: "get_nickname c' s = Some n'" by simp
    with b have l': "lookup_conn n' s = Some c'" by (rule bijectiveD1)
    with ln c' have "n' \<noteq> n" by auto
    with l' show "lookup_conn n' (remove_client c s) = Some c'" by (simp add: l)
  next
    fix n' c'
    assume h: "lookup_conn n' (remove_client c s) = Some c'"
    then have n': "n' \<noteq> n" by (simp add: l split: if_splits)
    with h have "lookup_conn n' s = Some c'" by (simp add: l)
    with b have g: "get_nickname c' s = Some n'" by (rule bijectiveD2)
    with Some n' have "c' \<noteq> c" by auto
    with g show "get_nickname c' (remove_client c s) = Some n'" by simp
  qed
qed

lemma make_unique_total: "\<exists>n. make_unique_nickname base s = Some n"
proof (cases "lookup_conn base s = None")
  case True
  then show ?thesis by (simp add: make_unique_nickname_def)
next
  case False
  obtain k where "nick_loop base s 2 = Some (base @ str_nat k)"
    using nick_loop_result [of 2 base s] by blast
  with False show ?thesis by (simp add: make_unique_nickname_def)
qed

lemma make_unique_fresh:
  assumes "make_unique_nickname base s = Some n"
  shows "lookup_conn n s = None \<and> (base \<noteq> [] \<longrightarrow> n \<noteq> [])"
proof (cases "lookup_conn base s = None")
  case True
  with assms show ?thesis by (simp add: make_unique_nickname_def)
next
  case False
  obtain k where "nick_loop base s 2 = Some (base @ str_nat k)"
    "lookup_conn (base @ str_nat k) s = None"
    using nick_loop_result [of 2 base s] by blast
  with False assms show ?thesis by (auto simp: make_unique_nickname_def)
qed

lemma run_ops_bijective:
  "fresh_ops live ops \<Longrightarrow> bijective s \<Longrightarrow> nonempty_nicks s
   \<Longrightarrow> set live = {c. get_nickname c s \<noteq> None}
   \<Longrightarrow> \<exists>s'. run_ops ops s = Some s' \<and> bijective s'"
proof (induction ops arbitrary: live s)
  case Nil
  then show ?case by simp
next
  case (Cons op ops)
  show ?case
  proof (cases op)
    case (Register c base)
    with Cons.prems have c: "c \<notin> set live" and base: "base \<noteq> []"
      and rest: "fresh_ops (c # live) ops"
      by simp_all
    obtain n where n: "make_unique_nickname base s = Some n"
      using make_unique_total [of base s] by blast
    from make_unique_fresh [OF n] base have free: "lookup_conn n s = None" and ne: "n \<noteq> []"
      by simp_all
    from c Cons.prems(4) have unreg: "get_nickname c s = None" by auto
    let ?s = "register_client c n s"
    have "bijective ?s"
      using Cons.prems(2) unreg free by (rule bijective_register)
    moreover have "nonempty_nicks ?s"
      using Cons.prems(3) ne by (auto simp: nonempty_nicks_def split: if_splits)
    moreover have "set (c # live) = {c'. get_nickname c' ?s \<noteq> None}"
      using Cons.prems(4) by auto
    ultimately have "\<exists>s'. run_ops ops ?s = Some s' \<and> bijective s'"
      using rest by (intro Cons.IH)
    with Register n show ?thesis by simp
  next
    case (Unregister c)
    with Cons.prems have rest: "fresh_ops (removeAll c live) ops" by simp
    let ?s = "remove_client c s"
    have "bijective ?s"
      using Cons.prems(2,3) by (rule bijective_remove)
    moreover have "nonempty_nicks ?s"
      using Cons.prems(3) by (auto simp: nonempty_nicks_def split: if_splits)
    moreover have "set (removeAll c live) = {c'. get_nickname c' ?s \<noteq> None}"
      using Cons.prems(4) by auto
    ultimately have "\<exists>s'. run_ops ops ?s = Some s' \<and> bijective s'"
      using rest by (intro Cons.IH)
    with Unregister show ?thesis by simp
  qed
qed

text \<open>
  C2, amended. From the empty registry, after any sequence of registrations and
  removals in which every registration is of a connection that is not registered at
  that moment and takes the nickname \<^verbatim>\<open>_make_unique_nickname\<close> gives for a base
  that is not empty, every call returns and the two maps are inverse to each other:
  the nickname of every registered connection leads back to it, and the connection of
  every registered nickname carries it.
\<close>

theorem registry_bijective:
  assumes "clients s = []" and "nick_map s = []" and "fresh_ops [] ops"
  shows "\<exists>s'. run_ops ops s = Some s' \<and> bijective s'"
proof -
  from assms(1,2) have "bijective s" "nonempty_nicks s" "set [] = {c. get_nickname c s \<noteq> None}"
    by (simp_all add: bijective_def nonempty_nicks_def get_nickname_def lookup_conn_def)
  with assms(3) show ?thesis
    by (intro run_ops_bijective)
qed


lemma run_ex_ops: "run_ops ex_ops (init_server {}) = Some ex_final"
  by (simp add: ex_ops_def ex_final_def init_server_def make_unique_nickname_def lookup_conn_def
      nick_loop.simps str_nat_2 register_client_def remove_client_def remove_locked_def
      broadcast_def send_line_def close_sock_def)

theorem registry_bijective_witness:
  "clients (init_server {}) = [] \<and> nick_map (init_server {}) = [] \<and> fresh_ops [] ex_ops
   \<and> run_ops ex_ops (init_server {}) = Some ex_final \<and> bijective ex_final"
  using registry_bijective [of "init_server {}" ex_ops]
  by (simp add: run_ex_ops) (simp add: ex_ops_def init_server_def)

text \<open>
  C2, counterexample. The claim asks only that each registered nickname is fresh.
  A connection registered a second time keeps its first nickname in the nickname map;
  a connection registered under the empty nickname leaves it there when it is removed,
  since \<^verbatim>\<open>if nickname:\<close> is false for the empty string.
\<close>

theorem registry_not_bijective:
  "run_ops [Register 1 [97], Register 1 [98]] (init_server {}) = Some ex_double
   \<and> \<not> bijective ex_double
   \<and> run_ops [Register 1 [], Unregister 1] (init_server {}) = Some ex_empty_nick
   \<and> \<not> bijective ex_empty_nick"
proof (intro conjI)
  show "run_ops [Register 1 [97], Register 1 [98]] (init_server {}) = Some ex_double"
    by (simp add: ex_double_def init_server_def make_unique_nickname_def lookup_conn_def
        register_client_def)
  show "\<not> bijective ex_double"
  proof
    assume "bijective ex_double"
    moreover have "lookup_conn [97] ex_double = Some 1"
      by (simp add: ex_double_def lookup_conn_def)
    ultimately have "get_nickname 1 ex_double = Some [97]" by (rule bijectiveD2)
    then show False by (simp add: ex_double_def get_nickname_def)
  qed
  show "run_ops [Register 1 [], Unregister 1] (init_server {}) = Some ex_empty_nick"
    by (simp add: ex_empty_nick_def init_server_def make_unique_nickname_def lookup_conn_def
        register_client_def remove_client_def remove_locked_def close_sock_def)
  show "\<not> bijective ex_empty_nick"
  proof
    assume "bijective ex_empty_nick"
    moreover have "lookup_conn [] ex_empty_nick = Some 1"
      by (simp add: ex_empty_nick_def lookup_conn_def)
    ultimately have "get_nickname 1 ex_empty_nick = Some []" by (rule bijectiveD2)
    then show False by (simp add: ex_empty_nick_def get_nickname_def init_server_def)
  qed
qed

subsection \<open>The handler\<close>

lemma update_fresh: "k \<notin> fst ` set al \<Longrightarrow> AList.update k v al = al @ [(k, v)]"
  by (induction al) auto

lemma unregistered_iff: "get_nickname c s = None \<longleftrightarrow> c \<notin> fst ` set (clients s)"
  by (simp add: get_nickname_def map_of_eq_None_iff)

lemma delete_unregistered: "get_nickname c s = None \<Longrightarrow> AList.delete c (clients s) = clients s"
  by (simp add: unregistered_iff)

lemma remove_unregistered: "get_nickname c s = None \<Longrightarrow> remove_client c s = close_sock c s"
  by (simp add: remove_client_eq delete_unregistered)

lemma close_sock_twice: "close_sock c (close_sock c s) = close_sock c s"
  by (simp add: close_sock_def)

lemma get_nickname_close [simp]: "get_nickname c' (close_sock c s) = get_nickname c' s"
  by (simp add: get_nickname_def)

lemma handle_whisper_registry [simp]:
  "clients (handle_whisper c raw s) = clients s"
  "nick_map (handle_whisper c raw s) = nick_map s"
  by (simp_all add: handle_whisper_def Let_def split: option.splits)

lemma client_loop_registry:
  "client_loop c script s = (out, s') \<Longrightarrow> clients s' = clients s \<and> nick_map s' = nick_map s"
proof (induction c script s rule: client_loop.induct)
  case (5 c line rest s)
  show ?case
  proof (cases "strip line = []")
    case True
    with 5 show ?thesis by simp
  next
    case ne: False
    show ?thesis
    proof (cases "strip line = CMD_QUIT")
      case True
      with ne "5.prems" show ?thesis by auto
    next
      case nq: False
      show ?thesis
      proof (cases "take 3 (strip line) = WHISPER_PREFIX")
        case True
        with ne nq "5.prems" have "client_loop c rest (handle_whisper c (strip line) s) = (out, s')"
          by simp
        with "5.IH"(2) [OF refl ne nq True] show ?thesis by simp
      next
        case nw: False
        show ?thesis
        proof (cases "get_nickname c s")
          case None
          with ne nq nw "5.prems" show ?thesis by auto
        next
          case (Some sender)
          with ne nq nw "5.prems"
          have "client_loop c rest (broadcast (chat_line sender (strip line)) s) = (out, s')"
            by simp
          with "5.IH"(3) [OF refl ne nq nw Some] show ?thesis by simp
        qed
      qed
    qed
  qed
qed auto

lemma client_loop_nickname:
  "client_loop c script s = (out, s') \<Longrightarrow> get_nickname c' s' = get_nickname c' s"
  by (drule client_loop_registry) (simp add: get_nickname_def)

lemma make_unique_send_line [simp]:
  "make_unique_nickname base (send_line c line s) = make_unique_nickname base s"
  by (rule make_unique_depends_on_taken) simp

lemma base_nonempty: "(if strip txt = [] then DEFAULT_BASE else strip txt) \<noteq> []"
  by (simp add: DEFAULT_BASE_def)

lemma body_nil: "handle_client_body c [] s = (Blocked, send_line c MSG_PROMPT s)"
  by (simp add: handle_client_body_def)

lemma body_abort:
  "handle_client_body c (Eof # rest) s = (Returned, close_sock c (send_line c MSG_PROMPT s))"
  "handle_client_body c (Reset # rest) s = (Returned, close_sock c (send_line c MSG_PROMPT s))"
  "handle_client_body c (OsError # rest) s = (Raised, send_line c MSG_PROMPT s)"
  by (simp_all add: handle_client_body_def)

lemma body_data:
  assumes "make_unique_nickname (if strip txt = [] then DEFAULT_BASE else strip txt) s = Some n"
  shows "handle_client_body c (Data txt # rest) s =
           client_loop c rest
             (send_line c MSG_HELP2 (send_line c MSG_HELP1 (broadcast (join_line n)
               (register_client c n (send_line c (confirm_line n) (send_line c MSG_PROMPT s))))))"
  using assms by (simp add: handle_client_body_def Let_def)


lemma register_client_fields [simp]:
  "closed (register_client c n s) = closed s"
  "broken (register_client c n s) = broken s"
  "wire (register_client c n s) = wire s"
  "stop_event (register_client c n s) = stop_event s"
  "listener_closed (register_client c n s) = listener_closed s"
  by (simp_all add: register_client_def)

lemma lines_to_send_line:
  "lines_to c (send_line c' line s) =
     lines_to c s @ (if c' = c \<and> c \<notin> closed s \<and> c \<notin> broken s then [line @ [10]] else [])"
  by (simp add: lines_to_def send_line_def)

lemma lines_to_broadcast_new:
  assumes "c \<notin> fst ` set al" and "clients s = al @ [(c, n)]"
    and "c \<notin> closed s" and "c \<notin> broken s"
  shows "lines_to c (broadcast line s) = lines_to c s @ [line @ [10]]"
proof -
  have "filter (\<lambda>p. fst p = c) (map (\<lambda>d. (d, line @ [10]))
          (filter (\<lambda>d. d \<notin> closed s \<and> d \<notin> broken s) (map fst al))) = []"
    using assms(1) by (auto simp: filter_empty_conv)
  with assms(2-4) show ?thesis
    by (simp add: lines_to_def broadcast_eq)
qed

lemma lines_after_handshake:
  assumes "get_nickname c s = None" and "c \<notin> closed s" and "c \<notin> broken s"
  shows "lines_to c
           (send_line c MSG_HELP2 (send_line c MSG_HELP1 (broadcast (join_line n)
             (register_client c n (send_line c (confirm_line n) (send_line c MSG_PROMPT s)))))) =
         lines_to c s @ [MSG_PROMPT @ [10], confirm_line n @ [10], join_line n @ [10],
                         MSG_HELP1 @ [10], MSG_HELP2 @ [10]]"
proof -
  let ?s2 = "send_line c (confirm_line n) (send_line c MSG_PROMPT s)"
  let ?s3 = "register_client c n ?s2"
  from assms(1) have fresh: "c \<notin> fst ` set (clients s)"
    by (simp add: unregistered_iff)
  have l2: "lines_to c ?s2 = lines_to c s @ [MSG_PROMPT @ [10], confirm_line n @ [10]]"
    using assms(2,3) by (simp add: lines_to_send_line)
  have l3: "lines_to c ?s3 = lines_to c ?s2"
    by (simp add: lines_to_def register_client_def)
  have cl: "clients ?s3 = clients s @ [(c, n)]"
    using fresh by (simp add: register_client_def update_fresh)
  have op: "c \<notin> closed ?s3" "c \<notin> broken ?s3"
    using assms(2,3) by (simp_all add: register_client_def)
  have l4: "lines_to c (broadcast (join_line n) ?s3) = lines_to c ?s3 @ [join_line n @ [10]]"
    using fresh cl op by (rule lines_to_broadcast_new)
  have op4: "c \<notin> closed (broadcast (join_line n) ?s3)" "c \<notin> broken (broadcast (join_line n) ?s3)"
    using op by simp_all
  show ?thesis
    using assms(2,3) by (simp add: lines_to_send_line l4 l3 l2)
qed

text \<open>
  C6. On a connection that is not yet registered: when the first read finds the peer
  closed or fails, the handler ends having sent only the prompt, registered nothing
  and closed the connection. The prompt is sent before the read (it is on the wire
  while the handler still waits). Otherwise the text is stripped, an empty text is
  replaced by the default base, the nickname search returns, and the loop starts in
  the state reached by: prompt, confirmation of the assigned nickname, registration,
  join broadcast, first help line, second help line. A peer that can be written to
  has then received exactly the prompt, the confirmation, the join announcement and
  the two help lines, in this order.
\<close>

theorem handshake_sequence:
  assumes "get_nickname sock s = None"
  shows "(r = Eof \<or> r = Reset \<or> r = OsError \<longrightarrow>
            snd (handle_client sock (r # rest) s) = close_sock sock (send_line sock MSG_PROMPT s)
            \<and> fst (handle_client sock (r # rest) s) \<noteq> Blocked)
         \<and> handle_client sock [] s = (Blocked, send_line sock MSG_PROMPT s)
         \<and> (\<exists>nickname s5.
               make_unique_nickname (if strip txt = [] then DEFAULT_BASE else strip txt) s
                 = Some nickname
               \<and> s5 = send_line sock MSG_HELP2 (send_line sock MSG_HELP1
                        (broadcast (join_line nickname) (register_client sock nickname
                          (send_line sock (confirm_line nickname)
                            (send_line sock MSG_PROMPT s)))))
               \<and> handle_client_body sock (Data txt # rest) s = client_loop sock rest s5
               \<and> get_nickname sock s5 = Some nickname
               \<and> (sock \<notin> closed s \<and> sock \<notin> broken s \<longrightarrow>
                    lines_to sock s5 =
                      lines_to sock s @ [MSG_PROMPT @ [10], confirm_line nickname @ [10],
                        join_line nickname @ [10], MSG_HELP1 @ [10], MSG_HELP2 @ [10]]))"
proof (intro conjI impI)
  assume r: "r = Eof \<or> r = Reset \<or> r = OsError"
  have un: "get_nickname sock (send_line sock MSG_PROMPT s) = None"
    using assms by simp
  from r show "snd (handle_client sock (r # rest) s) = close_sock sock (send_line sock MSG_PROMPT s)"
    using un by (auto simp: handle_client_def body_abort remove_unregistered close_sock_twice)
  from r show "fst (handle_client sock (r # rest) s) \<noteq> Blocked"
    by (auto simp: handle_client_def body_abort)
next
  show "handle_client sock [] s = (Blocked, send_line sock MSG_PROMPT s)"
    by (simp add: handle_client_def body_nil)
next
  obtain n where n: "make_unique_nickname (if strip txt = [] then DEFAULT_BASE else strip txt) s
      = Some n"
    using make_unique_total by blast
  let ?s5 = "send_line sock MSG_HELP2 (send_line sock MSG_HELP1 (broadcast (join_line n)
      (register_client sock n (send_line sock (confirm_line n) (send_line sock MSG_PROMPT s)))))"
  have "handle_client_body sock (Data txt # rest) s = client_loop sock rest ?s5"
    using n by (rule body_data)
  moreover have "get_nickname sock ?s5 = Some n"
    by simp
  moreover have "sock \<notin> closed s \<and> sock \<notin> broken s \<longrightarrow>
      lines_to sock ?s5 = lines_to sock s @ [MSG_PROMPT @ [10], confirm_line n @ [10],
        join_line n @ [10], MSG_HELP1 @ [10], MSG_HELP2 @ [10]]"
    using assms by (simp add: lines_after_handshake)
  ultimately show "\<exists>nickname s5.
      make_unique_nickname (if strip txt = [] then DEFAULT_BASE else strip txt) s = Some nickname
      \<and> s5 = send_line sock MSG_HELP2 (send_line sock MSG_HELP1
               (broadcast (join_line nickname) (register_client sock nickname
                 (send_line sock (confirm_line nickname) (send_line sock MSG_PROMPT s)))))
      \<and> handle_client_body sock (Data txt # rest) s = client_loop sock rest s5
      \<and> get_nickname sock s5 = Some nickname
      \<and> (sock \<notin> closed s \<and> sock \<notin> broken s \<longrightarrow>
           lines_to sock s5 =
             lines_to sock s @ [MSG_PROMPT @ [10], confirm_line nickname @ [10],
               join_line nickname @ [10], MSG_HELP1 @ [10], MSG_HELP2 @ [10]])"
    using n by blast
qed

lemma body_nickname_nonempty:
  assumes "get_nickname c s = None" and "handle_client_body c script s = (out, s1)"
    and "get_nickname c s1 = Some n"
  shows "n \<noteq> []"
proof (cases script)
  case Nil
  with assms show ?thesis by (auto simp: body_nil)
next
  case (Cons r rest)
  show ?thesis
  proof (cases r)
    case (Data line)
    obtain m where m: "make_unique_nickname (if strip line = [] then DEFAULT_BASE else strip line) s
        = Some m"
      using make_unique_total by blast
    from make_unique_fresh [OF m] base_nonempty have ne: "m \<noteq> []" by blast
    from assms(2) Cons Data body_data [OF m, of c rest]
    have "client_loop c rest (send_line c MSG_HELP2 (send_line c MSG_HELP1 (broadcast (join_line m)
            (register_client c m (send_line c (confirm_line m) (send_line c MSG_PROMPT s))))))
          = (out, s1)"
      by simp
    from client_loop_nickname [OF this, of c] assms(3) have "n = m" by simp
    with ne show ?thesis by simp
  next
    case Eof
    with assms Cons show ?thesis by (auto simp: body_abort)
  next
    case Reset
    with assms Cons show ?thesis by (auto simp: body_abort)
  next
    case OsError
    with assms Cons show ?thesis by (auto simp: body_abort)
  qed
qed

lemma cleanup_when_left:
  assumes "get_nickname sock s = None"
    and "handle_client_body sock script s = (out, s1)"
    and "out = Returned \<or> out = Raised"
  shows "handle_client sock script s = (out, remove_client sock s1)"
    and "remove_client sock s1 =
           close_sock sock
             (case get_nickname sock s1 of
                None \<Rightarrow> s1
              | Some n \<Rightarrow>
                  broadcast (leave_line n)
                    (s1\<lparr>clients := AList.delete sock (clients s1),
                        nick_map := AList.delete n (nick_map s1)\<rparr>))"
proof -
  show "handle_client sock script s = (out, remove_client sock s1)"
    using assms(2,3) by (auto simp: handle_client_def)
  show "remove_client sock s1 =
          close_sock sock
            (case get_nickname sock s1 of
               None \<Rightarrow> s1
             | Some n \<Rightarrow>
                 broadcast (leave_line n)
                   (s1\<lparr>clients := AList.delete sock (clients s1),
                       nick_map := AList.delete n (nick_map s1)\<rparr>))"
  proof (cases "get_nickname sock s1")
    case None
    then show ?thesis by (simp add: remove_unregistered)
  next
    case (Some n)
    with assms(1,2) have "n \<noteq> []" by (rule body_nickname_nonempty)
    with Some show ?thesis by (simp add: remove_client_eq)
  qed
qed

text \<open>The loop ends at the latest at the first read that ends a session.\<close>

lemma loop_ends:
  "ends_session r
   \<Longrightarrow> fst (client_loop c (pre @ r # post) s) = Returned
       \<or> fst (client_loop c (pre @ r # post) s) = Raised"
proof (induction pre arbitrary: s)
  case Nil
  then show ?case
    by (cases r) (auto simp: CMD_QUIT_def)
next
  case (Cons a pre)
  show ?case
  proof (cases a)
    case (Data line)
    show ?thesis
    proof (cases "strip line = []")
      case True
      with Data Cons.IH [OF Cons.prems, of s] show ?thesis by simp
    next
      case ne: False
      show ?thesis
      proof (cases "strip line = CMD_QUIT")
        case True
        with Data ne show ?thesis by simp
      next
        case nq: False
        show ?thesis
        proof (cases "take 3 (strip line) = WHISPER_PREFIX")
          case True
          with Data ne nq Cons.IH [OF Cons.prems, of "handle_whisper c (strip line) s"]
          show ?thesis by simp
        next
          case nw: False
          show ?thesis
          proof (cases "get_nickname c s")
            case None
            with Data ne nq nw show ?thesis by simp
          next
            case (Some sender)
            with Data ne nq nw
              Cons.IH [OF Cons.prems, of "broadcast (chat_line sender (strip line)) s"]
            show ?thesis by simp
          qed
        qed
      qed
    qed
  qed simp_all
qed

text \<open>
  C7. Take a handler started on a connection that is not yet registered. When its
  first read finds the peer closed or fails, nothing was registered: the handler ends,
  no leave announcement is sent and the connection is closed. When the handshake
  succeeds and a later read is the quit command, finds the peer closed, is reset or
  fails otherwise, the \<^verbatim>\<open>try\<close> block is left and \<^verbatim>\<open>_remove_client\<close> runs: the
  connection and its nickname leave the registry, the leave announcement is broadcast
  to the remaining connections, and the connection is closed. Closing a connection
  once more changes nothing.
\<close>

theorem session_end_cleanup:
  assumes "get_nickname sock s = None" and "ends_session r"
  shows "(\<exists>nickname out s1 final.
            handle_client_body sock (Data txt # pre @ r # post) s = (out, s1)
            \<and> (out = Returned \<or> out = Raised)
            \<and> get_nickname sock s1 = Some nickname
            \<and> final = close_sock sock (broadcast (leave_line nickname)
                        (s1\<lparr>clients := AList.delete sock (clients s1),
                            nick_map := AList.delete nickname (nick_map s1)\<rparr>))
            \<and> handle_client sock (Data txt # pre @ r # post) s = (out, final)
            \<and> get_nickname sock final = None
            \<and> lookup_conn nickname final = None
            \<and> sock \<in> closed final)
         \<and> (r = Eof \<or> r = Reset \<or> r = OsError \<longrightarrow>
              (\<exists>out. handle_client sock (r # post) s
                        = (out, close_sock sock (send_line sock MSG_PROMPT s))
                 \<and> (out = Returned \<or> out = Raised)))
         \<and> close_sock sock (close_sock sock s') = close_sock sock s'"
proof (intro conjI impI)
  obtain n where n: "make_unique_nickname (if strip txt = [] then DEFAULT_BASE else strip txt) s
      = Some n"
    using make_unique_total by blast
  let ?s5 = "send_line sock MSG_HELP2 (send_line sock MSG_HELP1 (broadcast (join_line n)
      (register_client sock n (send_line sock (confirm_line n) (send_line sock MSG_PROMPT s)))))"
  let ?script = "Data txt # pre @ r # post"
  obtain out s1 where loop: "client_loop sock (pre @ r # post) ?s5 = (out, s1)"
    by (cases "client_loop sock (pre @ r # post) ?s5") blast
  have body: "handle_client_body sock ?script s = (out, s1)"
    using body_data [OF n, of sock "pre @ r # post"] loop by simp
  have out: "out = Returned \<or> out = Raised"
    using loop_ends [OF assms(2), of sock pre post ?s5] loop by simp
  have reg: "get_nickname sock s1 = Some n"
    using client_loop_nickname [OF loop, of sock] by simp
  let ?final = "close_sock sock (broadcast (leave_line n)
      (s1\<lparr>clients := AList.delete sock (clients s1), nick_map := AList.delete n (nick_map s1)\<rparr>))"
  have rm: "remove_client sock s1 = ?final"
    using cleanup_when_left(2) [OF assms(1) body out] reg by simp
  have hc: "handle_client sock ?script s = (out, ?final)"
    using cleanup_when_left(1) [OF assms(1) body out] rm by simp
  have g: "get_nickname sock ?final = None"
    unfolding rm [symmetric] by simp
  have l: "lookup_conn n ?final = None"
    by (simp add: lookup_conn_def close_sock_def delete_conv')
  have c: "sock \<in> closed ?final"
    by simp
  from body out reg hc g l c
  show "\<exists>nickname out s1 final.
          handle_client_body sock ?script s = (out, s1)
          \<and> (out = Returned \<or> out = Raised)
          \<and> get_nickname sock s1 = Some nickname
          \<and> final = close_sock sock (broadcast (leave_line nickname)
                      (s1\<lparr>clients := AList.delete sock (clients s1),
                          nick_map := AList.delete nickname (nick_map s1)\<rparr>))
          \<and> handle_client sock ?script s = (out, final)
          \<and> get_nickname sock final = None
          \<and> lookup_conn nickname final = None
          \<and> sock \<in> closed final"
    by blast
next
  assume r: "r = Eof \<or> r = Reset \<or> r = OsError"
  have un: "get_nickname sock (send_line sock MSG_PROMPT s) = None"
    using assms(1) by simp
  from r un show "\<exists>out. handle_client sock (r # post) s
        = (out, close_sock sock (send_line sock MSG_PROMPT s))
      \<and> (out = Returned \<or> out = Raised)"
    by (auto simp: handle_client_def body_abort remove_unregistered close_sock_twice)
next
  show "close_sock sock (close_sock sock s') = close_sock sock s'"
    by (rule close_sock_twice)
qed

lemmas run_defs =
  handle_client_def handle_client_body_def make_unique_nickname_def lookup_conn_def
  get_nickname_def nick_loop.simps str_nat_2 str_nat_3 register_client_def remove_client_def
  remove_locked_def broadcast_def send_line_def close_sock_def strip_def is_space_def
  lines_to_def Let_def

theorem handshake_sequence_witness:
  "get_nickname 3 ex_two = None \<and> 3 \<notin> closed ex_two \<and> 3 \<notin> broken ex_two
   \<and> snd (handle_client 3 [Eof] ex_two) = ex_two\<lparr>closed := {3}, wire := [(3, MSG_PROMPT @ [10])]\<rparr>
   \<and> make_unique_nickname [97] ex_two = Some [97, 51]
   \<and> handle_client 3 [Data [32, 97, 32]] ex_two = (Blocked, ex_joined)
   \<and> get_nickname 3 ex_joined = Some [97, 51]
   \<and> lines_to 3 ex_joined =
       [MSG_PROMPT @ [10], confirm_line [97, 51] @ [10], join_line [97, 51] @ [10],
        MSG_HELP1 @ [10], MSG_HELP2 @ [10]]"
  using handshake_sequence [of 3 ex_two Eof "[]" "[32, 97, 32]"]
  by (simp add: ex_joined_def ex_defs run_defs DEFAULT_BASE_def)

theorem session_end_cleanup_witness:
  "get_nickname 3 ex_two = None
   \<and> ends_session Eof \<and> ends_session OsError \<and> ends_session (Data [47, 51333, 47308])
   \<and> fst (handle_client 3 ex_disconnect ex_two) = Returned
   \<and> get_nickname 3 (snd (handle_client 3 ex_disconnect ex_two)) = None
   \<and> lookup_conn [98] (snd (handle_client 3 ex_disconnect ex_two)) = None
   \<and> closed (snd (handle_client 3 ex_disconnect ex_two)) = {3}
   \<and> lines_to 1 (snd (handle_client 3 ex_disconnect ex_two)) =
       [join_line [98] @ [10], chat_line [98] [104, 105] @ [10], leave_line [98] @ [10]]
   \<and> fst (handle_client 3 ex_read_error ex_two) = Raised
   \<and> snd (handle_client 3 ex_read_error ex_two) = snd (handle_client 3 ex_disconnect ex_two)
   \<and> fst (handle_client 3 ex_quit ex_two) = Returned
   \<and> get_nickname 3 (snd (handle_client 3 ex_quit ex_two)) = None
   \<and> closed (snd (handle_client 3 ex_quit ex_two)) = {3}
   \<and> lines_to 1 (snd (handle_client 3 ex_quit ex_two)) =
       [join_line [98] @ [10], chat_line [98] [104, 105] @ [10], leave_line [98] @ [10]]
   \<and> handle_client 3 [Eof] ex_two = (Returned, close_sock 3 (send_line 3 MSG_PROMPT ex_two))
   \<and> lines_to 1 (snd (handle_client 3 [Eof] ex_two)) = []"
  using session_end_cleanup [of 3 ex_two Eof "[98]" "[Data [104, 105]]" "[]" ex_two]
    session_end_cleanup [of 3 ex_two OsError "[98]" "[Data [104, 105]]" "[]" ex_two]
    session_end_cleanup [of 3 ex_two "Data [47, 51333, 47308]" "[98]" "[Data [104, 105]]" "[]"
      ex_two]
  by (simp add: ex_disconnect_def ex_read_error_def ex_quit_def ex_defs run_defs
      DEFAULT_BASE_def CMD_QUIT_def WHISPER_PREFIX_def chat_line_def)

end
